theory Spec2Isabelle
  imports Main
begin

section \<open>Journal notes: the linked list of app.py and the handlers that use it\<close>

text \<open>
  The development follows \<^verbatim>\<open>src/app.py\<close>. A note is a Python dictionary decoded from
  JSON. The store reads the keys \<^verbatim>\<open>id\<close>, \<^verbatim>\<open>date\<close>, \<^verbatim>\<open>mood\<close> and \<^verbatim>\<open>text\<close> by
  subscript (they have to be present) and the keys \<^verbatim>\<open>deleted\<close> and \<^verbatim>\<open>photos\<close> through
  \<^verbatim>\<open>dict.get\<close> (they may be missing), so the record below keeps the first group as plain
  fields and the second group as optional fields, \<open>None\<close> standing for a missing key.
  The field names carry the prefix \<open>n_\<close> because \<open>id\<close> and \<open>text\<close> are taken in
  Isabelle. Values have the types of section 3 of the specification: Python's unbounded
  integers are \<open>int\<close>, strings are \<open>string\<close>.
\<close>

subsection \<open>Data\<close>

record Note =
  n_id :: int
  n_text :: string
  n_mood :: string
  n_date :: string
  n_title :: string
  n_photos :: "string list option"
  n_deleted :: "bool option"

text \<open>
  \<^verbatim>\<open>class Node\<close>: a note and the reference to the next node (\<^verbatim>\<open>None\<close> at the end).
  \<open>next\<close> is an Isabelle keyword, hence \<open>next_f\<close>. Every node of the program is
  referenced by exactly one predecessor (or by \<^verbatim>\<open>head\<close>): \<^verbatim>\<open>add_note\<close> creates a fresh
  node for each call and \<^verbatim>\<open>delete_note\<close> only unlinks, so the chain is a value and
  in-place assignment to a node is a rebuilt chain.
\<close>

datatype Node = Node (data: Note) (next_f: "Node option")

text \<open>\<^verbatim>\<open>class NotesLinkedList\<close>; \<open>size\<close> is a constant of HOL, hence \<open>size_f\<close>.\<close>

record NotesLinkedList =
  head :: "Node option"
  size_f :: int

text \<open>\<^verbatim>\<open>NotesLinkedList.__init__\<close>\<close>

definition init_list :: NotesLinkedList where
  "init_list = \<lparr>head = None, size_f = 0\<rparr>"

text \<open>
  The truth value of \<^verbatim>\<open>data.get('deleted')\<close> (a missing key gives \<^verbatim>\<open>None\<close>, which is
  false), and \<^verbatim>\<open>data.get('deleted', False)\<close>, which is the same Boolean.
\<close>

definition deleted_of :: "Note \<Rightarrow> bool" where
  "deleted_of d = (case n_deleted d of None \<Rightarrow> False | Some b \<Rightarrow> b)"

text \<open>
  The photos a node contributes: \<^verbatim>\<open>if data.get('photos'): for photo_data in
  data['photos']\<close>. A missing key and an empty list both skip the inner loop.
\<close>

definition photos_of :: "Note \<Rightarrow> string list" where
  "photos_of d = (case n_photos d of None \<Rightarrow> [] | Some ps \<Rightarrow> ps)"

text \<open>\<^verbatim>\<open>s.split('T')[0]\<close>: the part of \<open>s\<close> before the first \<^verbatim>\<open>T\<close>, all of \<open>s\<close> if it has none.\<close>

definition date_portion :: "string \<Rightarrow> string" where
  "date_portion s = takeWhile (\<lambda>c. c \<noteq> CHR ''T'') s"

subsection \<open>NotesLinkedList\<close>

text \<open>\<^verbatim>\<open>add_note\<close> (lines 14-20): returns the new node, and the list with it in front.\<close>

definition add_note :: "NotesLinkedList \<Rightarrow> Note \<Rightarrow> Node \<times> NotesLinkedList" where
  "add_note self note_data =
     (let new_node = Node note_data (head self)
      in (new_node, self\<lparr>head := Some new_node, size_f := size_f self + 1\<rparr>))"

text \<open>A sequence of \<^verbatim>\<open>add_note\<close> calls, one for each note of the list, in its order.\<close>

fun add_notes :: "NotesLinkedList \<Rightarrow> Note list \<Rightarrow> NotesLinkedList" where
  "add_notes l [] = l"
| "add_notes l (n # rest) = add_notes (snd (add_note l n)) rest"

text \<open>
  The loop of \<^verbatim>\<open>delete_note\<close> (lines 32-38), started at \<open>current\<close>: it looks at
  \<^verbatim>\<open>current.next\<close>, unlinks it when its id matches, and moves on otherwise. The result is
  whether it unlinked a node, and the chain from \<open>current\<close> afterwards.
\<close>

fun delete_loop :: "Node \<Rightarrow> int \<Rightarrow> bool \<times> Node" where
  "delete_loop (Node d None) note_id = (False, Node d None)"
| "delete_loop (Node d (Some nx)) note_id =
     (if n_id (data nx) = note_id then (True, Node d (next_f nx))
      else (case delete_loop nx note_id of (found, nx') \<Rightarrow> (found, Node d (Some nx'))))"

text \<open>\<^verbatim>\<open>delete_note\<close> (lines 22-40): the returned Boolean and the list afterwards.\<close>

definition delete_note :: "NotesLinkedList \<Rightarrow> int \<Rightarrow> bool \<times> NotesLinkedList" where
  "delete_note self note_id =
     (case head self of
        None \<Rightarrow> (False, self)
      | Some h \<Rightarrow>
          if n_id (data h) = note_id
          then (True, self\<lparr>head := next_f h, size_f := size_f self - 1\<rparr>)
          else (case delete_loop h note_id of
                  (True, h') \<Rightarrow> (True, self\<lparr>head := Some h', size_f := size_f self - 1\<rparr>)
                | (False, h') \<Rightarrow> (False, self)))"

text \<open>\<^verbatim>\<open>get_notes_by_date\<close> (lines 42-53): the loop with its accumulator \<open>notes\<close>.\<close>

fun get_notes_by_date_loop :: "Node option \<Rightarrow> string \<Rightarrow> Note list \<Rightarrow> Note list" where
  "get_notes_by_date_loop None target_date notes = notes"
| "get_notes_by_date_loop (Some (Node d nx)) target_date notes =
     (if date_portion (n_date d) = target_date
      then get_notes_by_date_loop nx target_date (notes @ [d])
      else get_notes_by_date_loop nx target_date notes)"

definition get_notes_by_date :: "NotesLinkedList \<Rightarrow> string \<Rightarrow> Note list" where
  "get_notes_by_date self target_date = get_notes_by_date_loop (head self) target_date []"

text \<open>\<^verbatim>\<open>get_all_notes\<close> (lines 55-62)\<close>

fun get_all_notes_loop :: "Node option \<Rightarrow> Note list \<Rightarrow> Note list" where
  "get_all_notes_loop None notes = notes"
| "get_all_notes_loop (Some (Node d nx)) notes = get_all_notes_loop nx (notes @ [d])"

definition get_all_notes :: "NotesLinkedList \<Rightarrow> Note list" where
  "get_all_notes self = get_all_notes_loop (head self) []"

text \<open>
  \<^verbatim>\<open>get_notes_with_photos\<close> (lines 64-82). A flattened entry is the dictionary built at
  lines 72-79, with the prefix \<open>p_\<close> on its keys.
\<close>

record photo_entry =
  p_src :: string
  p_mood :: string
  p_date :: string
  p_text :: string
  p_note_id :: int
  p_deleted :: bool

definition photo_of :: "Note \<Rightarrow> string \<Rightarrow> photo_entry" where
  "photo_of d photo_data =
     \<lparr>p_src = photo_data, p_mood = n_mood d, p_date = n_date d, p_text = n_text d,
      p_note_id = n_id d, p_deleted = deleted_of d\<rparr>"

fun photos_inner_loop :: "Note \<Rightarrow> string list \<Rightarrow> photo_entry list \<Rightarrow> photo_entry list" where
  "photos_inner_loop d [] photos = photos"
| "photos_inner_loop d (photo_data # rest) photos =
     photos_inner_loop d rest (photos @ [photo_of d photo_data])"

fun get_notes_with_photos_loop :: "Node option \<Rightarrow> photo_entry list \<Rightarrow> photo_entry list" where
  "get_notes_with_photos_loop None photos = photos"
| "get_notes_with_photos_loop (Some (Node d nx)) photos =
     get_notes_with_photos_loop nx (photos_inner_loop d (photos_of d) photos)"

definition get_notes_with_photos :: "NotesLinkedList \<Rightarrow> photo_entry list" where
  "get_notes_with_photos self = get_notes_with_photos_loop (head self) []"

text \<open>\<^verbatim>\<open>get_deleted_notes\<close> (lines 84-92)\<close>

fun get_deleted_notes_loop :: "Node option \<Rightarrow> Note list \<Rightarrow> Note list" where
  "get_deleted_notes_loop None deleted = deleted"
| "get_deleted_notes_loop (Some (Node d nx)) deleted =
     (if deleted_of d then get_deleted_notes_loop nx (deleted @ [d])
      else get_deleted_notes_loop nx deleted)"

definition get_deleted_notes :: "NotesLinkedList \<Rightarrow> Note list" where
  "get_deleted_notes self = get_deleted_notes_loop (head self) []"

text \<open>
  \<^verbatim>\<open>restore_note\<close> (lines 94-102): the loop from \<open>current\<close>, giving the returned Boolean
  and the chain afterwards (the assignment at line 99 changes one note in place).
\<close>

fun restore_loop :: "Node option \<Rightarrow> int \<Rightarrow> bool \<times> Node option" where
  "restore_loop None note_id = (False, None)"
| "restore_loop (Some (Node d nx)) note_id =
     (if n_id d = note_id \<and> deleted_of d
      then (True, Some (Node (d\<lparr>n_deleted := Some False\<rparr>) nx))
      else (case restore_loop nx note_id of (found, nx') \<Rightarrow> (found, Some (Node d nx'))))"

definition restore_note :: "NotesLinkedList \<Rightarrow> int \<Rightarrow> bool \<times> NotesLinkedList" where
  "restore_note self note_id =
     (case restore_loop (head self) note_id of (found, h') \<Rightarrow> (found, self\<lparr>head := h'\<rparr>))"


subsection \<open>JournalAppBackend: the data file\<close>

text \<open>
  The data file holds the JSON text of a list of notes. \<^verbatim>\<open>json.dump\<close> followed by
  \<^verbatim>\<open>json.load\<close> gives back the list of dictionaries it was given (integers, strings,
  Booleans and lists of strings are all JSON values), so the contents of a readable file
  are the list itself. \<open>Missing\<close> is \<^verbatim>\<open>os.path.exists\<close> being false, \<open>Unreadable\<close> a
  file on which \<^verbatim>\<open>open\<close> or \<^verbatim>\<open>json.load\<close> raises.
\<close>

datatype file_state = Missing | Unreadable | Stored "Note list"

record JournalAppBackend =
  notes_list :: NotesLinkedList
  data_file :: file_state

text \<open>
  \<^verbatim>\<open>load_data\<close> (lines 121-131): the loop over \<^verbatim>\<open>reversed(notes_data)\<close>
  calls \<^verbatim>\<open>add_note\<close> on each element; on a missing
  or unreadable file the list stays as it is (the exception is printed and dropped).
\<close>

definition load_data :: "JournalAppBackend \<Rightarrow> JournalAppBackend" where
  "load_data self =
     (case data_file self of
        Stored notes_data \<Rightarrow> self\<lparr>notes_list := add_notes (notes_list self) (rev notes_data)\<rparr>
      | Missing \<Rightarrow> self
      | Unreadable \<Rightarrow> self)"

text \<open>
  \<^verbatim>\<open>save_data\<close> (lines 133-140), for a write that the file system accepts. (A failing
  write is printed and dropped by the source; what the file holds then is not modelled.)
\<close>

definition save_data :: "JournalAppBackend \<Rightarrow> JournalAppBackend" where
  "save_data self = self\<lparr>data_file := Stored (get_all_notes (notes_list self))\<rparr>"

text \<open>\<^verbatim>\<open>JournalAppBackend.__init__\<close> (lines 112-119) on a given data file.\<close>

definition init_backend :: "file_state \<Rightarrow> JournalAppBackend" where
  "init_backend f = load_data \<lparr>notes_list = init_list, data_file = f\<rparr>"

subsection \<open>The soft-delete handler\<close>

text \<open>
  A response is the JSON body and the HTTP status. The loop of the handler
  \<^verbatim>\<open>DELETE /api/notes/<id>\<close> (lines 201-208) walks the chain from \<^verbatim>\<open>head\<close> and sets
  \<^verbatim>\<open>deleted\<close> on the first note with the id. \<open>mark_deleted\<close> is that loop as an operation
  on the list; \<open>route_delete_note\<close> is the handler, with the save and the response.
  Nothing in the handler can raise on a list of well-formed notes, so the
  \<^verbatim>\<open>except\<close> branch (status 500) is never taken here.
\<close>

datatype body = Message string | Error string

type_synonym response = "body \<times> nat"

fun soft_delete_loop :: "Node option \<Rightarrow> int \<Rightarrow> bool \<times> Node option" where
  "soft_delete_loop None note_id = (False, None)"
| "soft_delete_loop (Some (Node d nx)) note_id =
     (if n_id d = note_id
      then (True, Some (Node (d\<lparr>n_deleted := Some True\<rparr>) nx))
      else (case soft_delete_loop nx note_id of (found, nx') \<Rightarrow> (found, Some (Node d nx'))))"

definition mark_deleted :: "NotesLinkedList \<Rightarrow> int \<Rightarrow> bool \<times> NotesLinkedList" where
  "mark_deleted l note_id =
     (case soft_delete_loop (head l) note_id of (found, h') \<Rightarrow> (found, l\<lparr>head := h'\<rparr>))"

definition route_delete_note :: "JournalAppBackend \<Rightarrow> int \<Rightarrow> response \<times> JournalAppBackend" where
  "route_delete_note self note_id =
     (case mark_deleted (notes_list self) note_id of
        (True, l') \<Rightarrow> ((Message ''Moved to trash'', 200), save_data (self\<lparr>notes_list := l'\<rparr>))
      | (False, l') \<Rightarrow> ((Error ''Not found'', 404), self))"

subsection \<open>The calendar handler\<close>

text \<open>
  The part of Python's \<^verbatim>\<open>datetime\<close> that the handler uses. A date is a year, a month
  and a day; \<^verbatim>\<open>datetime(y, m, d)\<close> raises \<^verbatim>\<open>ValueError\<close> unless
  \<open>1 \<le> y \<le> 9999\<close>, \<open>1 \<le> m \<le> 12\<close> and \<open>d\<close> is a day of that month; subtracting
  \<^verbatim>\<open>timedelta(days=1)\<close> gives the day before and raises \<^verbatim>\<open>OverflowError\<close> before
  0001-01-01; dates compare by year, then month, then day.
\<close>

datatype py_error = ValueError | OverflowError

datatype pydate = Date (d_year: int) (d_month: int) (d_day: int)

definition is_leap :: "int \<Rightarrow> bool" where
  "is_leap y = (y mod 4 = 0 \<and> (y mod 100 \<noteq> 0 \<or> y mod 400 = 0))"

definition days_in_month :: "int \<Rightarrow> int \<Rightarrow> int" where
  "days_in_month y m =
     (if m = 2 then (if is_leap y then 29 else 28)
      else if m = 4 \<or> m = 6 \<or> m = 9 \<or> m = 11 then 30 else 31)"

definition mk_date :: "int \<Rightarrow> int \<Rightarrow> int \<Rightarrow> py_error + pydate" where
  "mk_date y m d =
     (if 1 \<le> y \<and> y \<le> 9999 \<and> 1 \<le> m \<and> m \<le> 12 \<and> 1 \<le> d \<and> d \<le> days_in_month y m
      then Inr (Date y m d) else Inl ValueError)"

definition minus_one_day :: "pydate \<Rightarrow> py_error + pydate" where
  "minus_one_day dt =
     (if 1 < d_day dt then Inr (Date (d_year dt) (d_month dt) (d_day dt - 1))
      else if 1 < d_month dt
      then Inr (Date (d_year dt) (d_month dt - 1) (days_in_month (d_year dt) (d_month dt - 1)))
      else if 1 < d_year dt then Inr (Date (d_year dt - 1) 12 31)
      else Inl OverflowError)"

definition date_le :: "pydate \<Rightarrow> pydate \<Rightarrow> bool" where
  "date_le a b =
     (d_year a < d_year b \<or>
      (d_year a = d_year b \<and>
        (d_month a < d_month b \<or> (d_month a = d_month b \<and> d_day a \<le> d_day b))))"

text \<open>
  Lines 254-258: the first day of the month and the last one, the day before the first
  day of the next month.
\<close>

definition month_range :: "int \<Rightarrow> int \<Rightarrow> py_error + (pydate \<times> pydate)" where
  "month_range year month =
     (case mk_date year month 1 of
        Inl e \<Rightarrow> Inl e
      | Inr start_date \<Rightarrow>
          (case (if month = 12 then mk_date (year + 1) 1 1 else mk_date year (month + 1) 1) of
             Inl e \<Rightarrow> Inl e
           | Inr first_of_next \<Rightarrow>
               (case minus_one_day first_of_next of
                  Inl e \<Rightarrow> Inl e
                | Inr end_date \<Rightarrow> Inr (start_date, end_date))))"

text \<open>
  The loop of lines 263-277. \<^verbatim>\<open>datetime.fromisoformat\<close> is a parameter: the strings it
  accepts differ between Python versions, and the handler only needs that it either
  gives a date or raises \<^verbatim>\<open>ValueError\<close> (\<open>None\<close>). \<^verbatim>\<open>calendar_data\<close> maps a date string
  to the list under its key \<^verbatim>\<open>'notes'\<close>.
\<close>

fun calendar_loop ::
  "(string \<Rightarrow> pydate option) \<Rightarrow> pydate \<Rightarrow> pydate \<Rightarrow> Node option \<Rightarrow>
   (string \<rightharpoonup> Note list) \<Rightarrow> py_error + (string \<rightharpoonup> Note list)" where
  "calendar_loop fromisoformat start_date end_date None calendar_data = Inr calendar_data"
| "calendar_loop fromisoformat start_date end_date (Some (Node d nx)) calendar_data =
     (if deleted_of d then calendar_loop fromisoformat start_date end_date nx calendar_data
      else
        (let note_date = date_portion (n_date d) in
         case fromisoformat note_date of
           None \<Rightarrow> Inl ValueError
         | Some note_dt \<Rightarrow>
             if date_le start_date note_dt \<and> date_le note_dt end_date
             then calendar_loop fromisoformat start_date end_date nx
                    (calendar_data(note_date \<mapsto>
                       (case calendar_data note_date of None \<Rightarrow> [] | Some ns \<Rightarrow> ns) @ [d]))
             else calendar_loop fromisoformat start_date end_date nx calendar_data))"

text \<open>
  \<^verbatim>\<open>get_calendar_data\<close> (lines 250-282): \<open>Inr\<close> is the mapping sent with status 200,
  \<open>Inl\<close> the exception that the \<^verbatim>\<open>except\<close> branch turns into the status 500.
\<close>

definition get_calendar_data ::
  "(string \<Rightarrow> pydate option) \<Rightarrow> JournalAppBackend \<Rightarrow> int \<Rightarrow> int \<Rightarrow>
   py_error + (string \<rightharpoonup> Note list)" where
  "get_calendar_data fromisoformat self year month =
     (case month_range year month of
        Inl e \<Rightarrow> Inl e
      | Inr (start_date, end_date) \<Rightarrow>
          calendar_loop fromisoformat start_date end_date (head (notes_list self)) Map.empty)"

subsection \<open>Notions used to state the properties\<close>

text \<open>The notes reachable from a node reference, in the order of the references.\<close>

fun chain :: "Node option \<Rightarrow> Note list" where
  "chain None = []"
| "chain (Some (Node d nx)) = d # chain nx"

text \<open>The number of nodes reachable from a node reference.\<close>

fun count_nodes :: "Node option \<Rightarrow> nat" where
  "count_nodes None = 0"
| "count_nodes (Some (Node d nx)) = Suc (count_nodes nx)"

definition has_id :: "int \<Rightarrow> Note \<Rightarrow> bool" where
  "has_id i n = (n_id n = i)"

text \<open>A note that is in the trash under the id \<open>i\<close>, and one that is active under it.\<close>

definition trashed_with_id :: "int \<Rightarrow> Note \<Rightarrow> bool" where
  "trashed_with_id i n = (n_id n = i \<and> deleted_of n)"

definition active_with_id :: "int \<Rightarrow> Note \<Rightarrow> bool" where
  "active_with_id i n = (n_id n = i \<and> \<not> deleted_of n)"

text \<open>A sequence of notes without its first note of id \<open>i\<close>.\<close>

fun remove_first :: "int \<Rightarrow> Note list \<Rightarrow> Note list" where
  "remove_first i [] = []"
| "remove_first i (n # ns) = (if n_id n = i then ns else n # remove_first i ns)"

text \<open>A sequence of notes with the flag of its first note of id \<open>i\<close> set.\<close>

fun trash_first :: "int \<Rightarrow> Note list \<Rightarrow> Note list" where
  "trash_first i [] = []"
| "trash_first i (n # ns) =
     (if n_id n = i then n\<lparr>n_deleted := Some True\<rparr> # ns else n # trash_first i ns)"

text \<open>A sequence of notes with the flag of its first trashed note of id \<open>i\<close> cleared.\<close>

fun restore_first :: "int \<Rightarrow> Note list \<Rightarrow> Note list" where
  "restore_first i [] = []"
| "restore_first i (n # ns) =
     (if n_id n = i \<and> deleted_of n then n\<lparr>n_deleted := Some False\<rparr> # ns
      else n # restore_first i ns)"

text \<open>A list operation that changes the number of nodes, and a run of such operations.\<close>

datatype list_op = AddNote Note | DeleteNote int

fun apply_op :: "NotesLinkedList \<Rightarrow> list_op \<Rightarrow> NotesLinkedList" where
  "apply_op l (AddNote n) = snd (add_note l n)"
| "apply_op l (DeleteNote i) = snd (delete_note l i)"

fun run_ops :: "NotesLinkedList \<Rightarrow> list_op list \<Rightarrow> NotesLinkedList" where
  "run_ops l [] = l"
| "run_ops l (x # xs) = run_ops (apply_op l x) xs"

text \<open>A sequence of notes in which the note of id \<open>i\<close> has its flag cleared.\<close>

definition clear_flag :: "int \<Rightarrow> Note \<Rightarrow> Note" where
  "clear_flag i n = (if n_id n = i then n\<lparr>n_deleted := Some False\<rparr> else n)"

text \<open>
  The calendar of a sequence of notes: a note is filed under the key \<open>k\<close> when it is not
  deleted, \<open>k\<close> is its date portion, and the date read from \<open>k\<close> lies between \<open>lo\<close> and
  \<open>hi\<close>; a key with no such note is not in the mapping.
\<close>

definition filed_under ::
  "(string \<Rightarrow> pydate option) \<Rightarrow> pydate \<Rightarrow> pydate \<Rightarrow> string \<Rightarrow> Note \<Rightarrow> bool" where
  "filed_under fromisoformat lo hi k n =
     (\<not> deleted_of n \<and> date_portion (n_date n) = k \<and>
      (case fromisoformat k of None \<Rightarrow> False | Some dt \<Rightarrow> date_le lo dt \<and> date_le dt hi))"

definition calendar_of ::
  "(string \<Rightarrow> pydate option) \<Rightarrow> pydate \<Rightarrow> pydate \<Rightarrow> Note list \<Rightarrow> (string \<rightharpoonup> Note list)" where
  "calendar_of fromisoformat lo hi ns k =
     (case filter (filed_under fromisoformat lo hi k) ns of [] \<Rightarrow> None | x # xs \<Rightarrow> Some (x # xs))"

text \<open>A note on which the calendar loop does not raise: deleted, or with a readable date portion.\<close>

definition date_readable :: "(string \<Rightarrow> pydate option) \<Rightarrow> Note \<Rightarrow> bool" where
  "date_readable fromisoformat n =
     (deleted_of n \<or> (case fromisoformat (date_portion (n_date n)) of None \<Rightarrow> False | Some dt \<Rightarrow> True))"

subsection \<open>Example data\<close>

text \<open>
  One reader of dates for the examples: it accepts the form \<^verbatim>\<open>YYYY-MM-DD\<close> of a valid
  date, which every version of \<^verbatim>\<open>datetime.fromisoformat\<close> accepts, and nothing else.
\<close>

definition digit_of :: "char \<Rightarrow> int option" where
  "digit_of c =
     map_of [(CHR ''0'', 0), (CHR ''1'', 1), (CHR ''2'', 2), (CHR ''3'', 3), (CHR ''4'', 4),
             (CHR ''5'', 5), (CHR ''6'', 6), (CHR ''7'', 7), (CHR ''8'', 8), (CHR ''9'', 9)] c"

fun digits_of :: "int \<Rightarrow> string \<Rightarrow> int option" where
  "digits_of acc [] = Some acc"
| "digits_of acc (c # cs) =
     (case digit_of c of None \<Rightarrow> None | Some v \<Rightarrow> digits_of (10 * acc + v) cs)"

definition iso_date :: "string \<Rightarrow> pydate option" where
  "iso_date s =
     (case s of
        [y1, y2, y3, y4, s1, m1, m2, s2, d1, d2] \<Rightarrow>
          (if s1 = CHR ''-'' \<and> s2 = CHR ''-'' then
             (case (digits_of 0 [y1, y2, y3, y4], digits_of 0 [m1, m2], digits_of 0 [d1, d2]) of
                (Some y, Some m, Some d) \<Rightarrow>
                  (case mk_date y m d of Inl e \<Rightarrow> None | Inr dt \<Rightarrow> Some dt)
              | _ \<Rightarrow> None)
           else None)
      | _ \<Rightarrow> None)"

definition note_A :: Note where
  "note_A = \<lparr>n_id = 1, n_text = ''Good day'', n_mood = ''happy'',
              n_date = ''2024-02-29T10:00:00'', n_title = '''',
              n_photos = Some [''a.png'', ''b.png'', ''c.png''], n_deleted = Some False\<rparr>"

definition note_A2 :: Note where
  "note_A2 = \<lparr>n_id = 1, n_text = ''Same id'', n_mood = ''calm'',
               n_date = ''2024-02-29T21:15:00'', n_title = ''again'',
               n_photos = Some [], n_deleted = Some False\<rparr>"

definition note_B :: Note where
  "note_B = \<lparr>n_id = 2, n_text = ''Rain'', n_mood = ''sad'',
              n_date = ''2024-03-01T08:30:00'', n_title = ''wet'',
              n_photos = Some [], n_deleted = Some True\<rparr>"

definition note_C :: Note where
  "note_C = \<lparr>n_id = 3, n_text = ''No date'', n_mood = ''happy'',
              n_date = ''yesterday'', n_title = '''',
              n_photos = None, n_deleted = None\<rparr>"

text \<open>Lists built by \<^verbatim>\<open>add_note\<close> calls from the empty list.\<close>

definition two_notes :: NotesLinkedList where
  "two_notes = add_notes init_list [note_B, note_A]"

definition three_notes :: NotesLinkedList where
  "three_notes = add_notes init_list [note_A, note_B, note_A2]"

definition photo_notes :: NotesLinkedList where
  "photo_notes = add_notes init_list [note_C, note_B, note_A]"

text \<open>Backends started on a data file.\<close>

definition dated_backend :: JournalAppBackend where
  "dated_backend = init_backend (Stored [note_A2, note_B, note_A])"

definition undated_backend :: JournalAppBackend where
  "undated_backend = init_backend (Stored [note_C])"

section \<open>The loops, as functions of the sequence of notes\<close>

lemma get_all_notes_loop_chain: "get_all_notes_loop c acc = acc @ chain c"
  by (induction c acc rule: get_all_notes_loop.induct) simp_all

lemma get_all_notes_chain: "get_all_notes l = chain (head l)"
  by (simp add: get_all_notes_def get_all_notes_loop_chain)

lemma chain_inject: "chain a = chain b \<Longrightarrow> a = b"
proof (induction a arbitrary: b rule: chain.induct)
  case 1
  then show ?case by (cases b rule: chain.cases) simp_all
next
  case (2 d nx)
  then show ?case by (cases b rule: chain.cases) auto
qed

lemma count_nodes_length: "count_nodes c = length (chain c)"
  by (induction c rule: chain.induct) simp_all

lemma add_notes_chain: "chain (head (add_notes l ns)) = rev ns @ chain (head l)"
  by (induction ns arbitrary: l) (simp_all add: add_note_def Let_def)

lemma add_notes_size: "size_f (add_notes l ns) = size_f l + int (length ns)"
  by (induction ns arbitrary: l) (simp_all add: add_note_def Let_def)

lemma chain_Some: "chain (Some n) = data n # chain (next_f n)"
  by (cases n) simp

lemma count_nodes_Some: "count_nodes (Some n) = Suc (count_nodes (next_f n))"
  by (cases n) simp

lemma delete_loop_fst: "fst (delete_loop n i) = list_ex (has_id i) (chain (next_f n))"
  by (induction n i rule: delete_loop.induct) (auto simp: has_id_def chain_Some split: prod.splits)

lemma delete_loop_chain:
  "chain (Some (snd (delete_loop n i))) = data n # remove_first i (chain (next_f n))"
  by (induction n i rule: delete_loop.induct) (auto simp: has_id_def chain_Some split: prod.splits)


lemma remove_first_absent: "\<not> list_ex (has_id i) ns \<Longrightarrow> remove_first i ns = ns"
  by (induction ns) (auto simp: has_id_def)

lemma trash_first_absent: "\<not> list_ex (has_id i) ns \<Longrightarrow> trash_first i ns = ns"
  by (induction ns) (auto simp: has_id_def)

lemma restore_first_absent: "\<not> list_ex (trashed_with_id i) ns \<Longrightarrow> restore_first i ns = ns"
  by (induction ns) (auto simp: trashed_with_id_def)

lemma delete_note_fst: "fst (delete_note l i) = list_ex (has_id i) (chain (head l))"
proof (cases "head l")
  case None
  then show ?thesis by (simp add: delete_note_def)
next
  case (Some h)
  show ?thesis
  proof (cases "n_id (data h) = i")
    case True
    with Some show ?thesis by (simp add: delete_note_def chain_Some has_id_def)
  next
    case False
    have "fst (delete_loop h i) = list_ex (has_id i) (chain (next_f h))"
      by (rule delete_loop_fst)
    with Some False show ?thesis
      by (cases "delete_loop h i")
        (auto simp: delete_note_def chain_Some has_id_def split: bool.splits)
  qed
qed

lemma delete_note_chain: "chain (head (snd (delete_note l i))) = remove_first i (chain (head l))"
proof (cases "head l")
  case None
  then show ?thesis by (simp add: delete_note_def)
next
  case (Some h)
  show ?thesis
  proof (cases "n_id (data h) = i")
    case True
    with Some show ?thesis by (simp add: delete_note_def chain_Some)
  next
    case False
    note nomatch = this
    obtain found h' where dl: "delete_loop h i = (found, h')"
      by (cases "delete_loop h i")
    have c: "chain (Some h') = data h # remove_first i (chain (next_f h))"
      using delete_loop_chain [of h i] dl by simp
    show ?thesis
    proof (cases found)
      case True
      with Some nomatch dl c show ?thesis
        by (simp add: delete_note_def chain_Some)
    next
      case False
      have "\<not> list_ex (has_id i) (chain (next_f h))"
        using delete_loop_fst [of h i] dl False by simp
      then have "remove_first i (chain (next_f h)) = chain (next_f h)"
        by (rule remove_first_absent)
      with Some nomatch dl False show ?thesis
        by (simp add: delete_note_def chain_Some)
    qed
  qed
qed


lemma delete_note_size:
  "size_f (snd (delete_note l i)) = (if fst (delete_note l i) then size_f l - 1 else size_f l)"
  by (auto simp: delete_note_def split: option.splits prod.splits bool.splits)

lemma delete_note_absent: "\<not> fst (delete_note l i) \<Longrightarrow> snd (delete_note l i) = l"
  by (auto simp: delete_note_def split: option.splits prod.splits bool.splits)

lemma soft_delete_loop_fst: "fst (soft_delete_loop c i) = list_ex (has_id i) (chain c)"
  by (induction c i rule: soft_delete_loop.induct) (auto simp: has_id_def split: prod.splits)

lemma soft_delete_loop_chain: "chain (snd (soft_delete_loop c i)) = trash_first i (chain c)"
  by (induction c i rule: soft_delete_loop.induct) (auto split: prod.splits)

lemma restore_loop_fst: "fst (restore_loop c i) = list_ex (trashed_with_id i) (chain c)"
  by (induction c i rule: restore_loop.induct) (auto simp: trashed_with_id_def split: prod.splits)

lemma restore_loop_chain: "chain (snd (restore_loop c i)) = restore_first i (chain c)"
  by (induction c i rule: restore_loop.induct) (auto split: prod.splits)

lemma mark_deleted_fst: "fst (mark_deleted l i) = list_ex (has_id i) (chain (head l))"
  using soft_delete_loop_fst [of "head l" i] by (auto simp: mark_deleted_def split: prod.splits)

lemma mark_deleted_chain: "chain (head (snd (mark_deleted l i))) = trash_first i (chain (head l))"
  using soft_delete_loop_chain [of "head l" i] by (auto simp: mark_deleted_def split: prod.splits)

lemma mark_deleted_size: "size_f (snd (mark_deleted l i)) = size_f l"
  by (simp add: mark_deleted_def split: prod.splits)

lemma restore_note_fst: "fst (restore_note l i) = list_ex (trashed_with_id i) (chain (head l))"
  using restore_loop_fst [of "head l" i] by (auto simp: restore_note_def split: prod.splits)

lemma restore_note_chain: "chain (head (snd (restore_note l i))) = restore_first i (chain (head l))"
  using restore_loop_chain [of "head l" i] by (auto simp: restore_note_def split: prod.splits)

lemma restore_note_size: "size_f (snd (restore_note l i)) = size_f l"
  by (simp add: restore_note_def split: prod.splits)

lemma list_eqI: "chain (head a) = chain (head b) \<Longrightarrow> size_f a = size_f b \<Longrightarrow> a = (b::NotesLinkedList)"
  by (cases a, cases b) (auto dest: chain_inject)

lemma mark_deleted_absent: "\<not> fst (mark_deleted l i) \<Longrightarrow> snd (mark_deleted l i) = l"
  by (rule list_eqI) (simp_all add: mark_deleted_chain mark_deleted_size mark_deleted_fst trash_first_absent)

lemma restore_note_absent: "\<not> fst (restore_note l i) \<Longrightarrow> snd (restore_note l i) = l"
  by (rule list_eqI) (simp_all add: restore_note_chain restore_note_size restore_note_fst restore_first_absent)

lemma get_deleted_notes_loop_chain: "get_deleted_notes_loop c acc = acc @ filter deleted_of (chain c)"
  by (induction c acc rule: get_deleted_notes_loop.induct) simp_all

lemma get_deleted_notes_chain: "get_deleted_notes l = filter deleted_of (chain (head l))"
  by (simp add: get_deleted_notes_def get_deleted_notes_loop_chain)

lemma get_notes_by_date_loop_chain:
  "get_notes_by_date_loop c t acc = acc @ filter (\<lambda>n. date_portion (n_date n) = t) (chain c)"
  by (induction c t acc rule: get_notes_by_date_loop.induct) simp_all

lemma photos_inner_loop_map: "photos_inner_loop d ps acc = acc @ map (photo_of d) ps"
  by (induction ps arbitrary: acc) simp_all

lemma get_notes_with_photos_loop_chain:
  "get_notes_with_photos_loop c acc = acc @ concat (map (\<lambda>d. map (photo_of d) (photos_of d)) (chain c))"
  by (induction c acc rule: get_notes_with_photos_loop.induct) (simp_all add: photos_inner_loop_map)

lemmas ex_defs = Let_def note_A_def note_A2_def note_B_def note_C_def init_list_def add_note_def
  get_all_notes_def has_id_def trashed_with_id_def active_with_id_def deleted_of_def

lemma remove_first_unique:
  "length (filter (has_id i) ns) \<le> 1 \<Longrightarrow> \<not> list_ex (has_id i) (remove_first i ns)"
proof (induction ns)
  case Nil
  then show ?case by simp
next
  case (Cons n ns)
  show ?case
  proof (cases "n_id n = i")
    case True
    with Cons.prems have "filter (has_id i) ns = []" by (simp add: has_id_def [abs_def])
    then have "\<not> list_ex (has_id i) ns" by (simp add: list_ex_iff filter_empty_conv)
    with True show ?thesis by simp
  next
    case False
    with Cons show ?thesis by (simp add: has_id_def)
  qed
qed

lemma remove_first_length:
  "list_ex (has_id i) ns \<Longrightarrow> Suc (length (remove_first i ns)) = length ns"
  by (induction ns) (auto simp: has_id_def)

lemma clear_flag_absent: "\<not> list_ex (has_id i) ns \<Longrightarrow> map (clear_flag i) ns = ns"
  by (induction ns) (auto simp: has_id_def clear_flag_def)

lemma restore_trash_unique:
  "filter (has_id i) ns = [x] \<Longrightarrow> restore_first i (trash_first i ns) = map (clear_flag i) ns"
proof (induction ns)
  case Nil
  then show ?case by simp
next
  case (Cons n ns)
  show ?case
  proof (cases "n_id n = i")
    case True
    with Cons.prems have "filter (has_id i) ns = []" by (simp add: has_id_def [abs_def])
    then have "\<not> list_ex (has_id i) ns" by (simp add: list_ex_iff filter_empty_conv)
    then have "map (clear_flag i) ns = ns" by (rule clear_flag_absent)
    moreover have "clear_flag i n = n\<lparr>n_deleted := Some False\<rparr>"
      using True by (simp add: clear_flag_def)
    ultimately show ?thesis using True by (simp add: deleted_of_def)
  next
    case False
    then have "clear_flag i n = n" by (simp add: clear_flag_def)
    with False Cons show ?thesis by (simp add: has_id_def)
  qed
qed

lemma trash_first_has_id: "list_ex (has_id i) ns \<Longrightarrow> list_ex (trashed_with_id i) (trash_first i ns)"
  by (induction ns) (auto simp: has_id_def trashed_with_id_def deleted_of_def)

lemma apply_op_inv:
  "size_f l = int (count_nodes (head l)) \<Longrightarrow>
   size_f (apply_op l x) = int (count_nodes (head (apply_op l x)))"
proof (cases x)
  case (AddNote n)
  assume "size_f l = int (count_nodes (head l))"
  with AddNote show ?thesis by (simp add: add_note_def Let_def)
next
  case (DeleteNote i)
  assume inv: "size_f l = int (count_nodes (head l))"
  show ?thesis
  proof (cases "fst (delete_note l i)")
    case True
    then have "list_ex (has_id i) (chain (head l))" by (simp add: delete_note_fst)
    then have "Suc (length (remove_first i (chain (head l)))) = length (chain (head l))"
      by (rule remove_first_length)
    with True inv DeleteNote show ?thesis
      by (simp add: delete_note_size count_nodes_length delete_note_chain)
  next
    case False
    with inv DeleteNote show ?thesis by (simp add: delete_note_absent)
  qed
qed

lemma run_ops_inv:
  "size_f l = int (count_nodes (head l)) \<Longrightarrow>
   size_f (run_ops l ops) = int (count_nodes (head (run_ops l ops)))"
  by (induction ops arbitrary: l) (simp_all add: apply_op_inv)

lemma month_range_valid:
  assumes "1 \<le> year" "year \<le> 9999" "1 \<le> month" "month \<le> 12" "\<not> (year = 9999 \<and> month = 12)"
  shows "month_range year month =
           Inr (Date year month 1, Date year month (days_in_month year month))"
proof (cases "month = 12")
  case True
  with assms show ?thesis
    by (simp add: month_range_def mk_date_def minus_one_day_def days_in_month_def)
next
  case False
  with assms have "1 \<le> days_in_month year month" "1 \<le> days_in_month year (month + 1)"
    by (simp_all add: days_in_month_def)
  with False assms show ?thesis
    by (simp add: month_range_def mk_date_def minus_one_day_def)
qed

lemma month_range_invalid:
  "\<not> (1 \<le> year \<and> year \<le> 9999 \<and> 1 \<le> month \<and> month \<le> 12) \<Longrightarrow>
   month_range year month = Inl ValueError"
proof -
  assume "\<not> (1 \<le> year \<and> year \<le> 9999 \<and> 1 \<le> month \<and> month \<le> 12)"
  then have "mk_date year month 1 = Inl ValueError" by (auto simp: mk_date_def)
  then show ?thesis by (simp add: month_range_def)
qed

lemma month_range_error: "month_range year month = Inl e \<Longrightarrow> e = ValueError"
  by (auto simp: month_range_def mk_date_def minus_one_day_def split: if_splits)

lemma calendar_loop_readable:
  "list_all (date_readable P) (chain c) \<Longrightarrow>
   calendar_loop P lo hi c cal =
     Inr (\<lambda>k. case filter (filed_under P lo hi k) (chain c) of
                 [] \<Rightarrow> cal k
               | x # xs \<Rightarrow> Some ((case cal k of None \<Rightarrow> [] | Some ns \<Rightarrow> ns) @ x # xs))"
proof (induction c arbitrary: cal rule: chain.induct)
  case 1
  show ?case by simp
next
  case (2 d nx)
  from "2.prems" have rest: "list_all (date_readable P) (chain nx)" by simp
  note IH = "2.IH" [OF rest]
  show ?case
  proof (cases "deleted_of d")
    case True
    then show ?thesis by (simp add: IH filed_under_def)
  next
    case False
    with "2.prems" obtain dt where dt: "P (date_portion (n_date d)) = Some dt"
      by (auto simp: date_readable_def split: option.splits)
    show ?thesis
    proof (cases "date_le lo dt \<and> date_le dt hi")
      case True
      with False dt show ?thesis
        by (auto simp: IH filed_under_def Let_def fun_eq_iff split: list.splits option.splits)
    next
      case False
      with \<open>\<not> deleted_of d\<close> dt show ?thesis
        by (auto simp: IH filed_under_def Let_def fun_eq_iff split: list.splits option.splits)
    qed
  qed
qed

lemma calendar_loop_unreadable:
  "\<not> list_all (date_readable P) (chain c) \<Longrightarrow> calendar_loop P lo hi c cal = Inl ValueError"
proof (induction c arbitrary: cal rule: chain.induct)
  case 1
  then show ?case by simp
next
  case (2 d nx)
  show ?case
  proof (cases "date_readable P d")
    case True
    with "2.prems" have "\<not> list_all (date_readable P) (chain nx)" by simp
    note IH = "2.IH" [OF this]
    from True show ?thesis
      by (auto simp: IH date_readable_def Let_def split: option.splits)
  next
    case False
    then show ?thesis by (auto simp: date_readable_def Let_def split: option.splits)
  qed
qed

lemma dated_notes: "get_all_notes (notes_list dated_backend) = [note_A2, note_B, note_A]"
  by (simp add: dated_backend_def init_backend_def load_data_def get_all_notes_chain
      add_note_def Let_def init_list_def)

lemma undated_notes: "get_all_notes (notes_list undated_backend) = [note_C]"
  by (simp add: undated_backend_def init_backend_def load_data_def get_all_notes_chain
      add_note_def Let_def init_list_def)

lemmas date_defs = iso_date_def date_portion_def digit_of_def mk_date_def days_in_month_def
  is_leap_def date_le_def deleted_of_def note_A_def note_A2_def note_B_def note_C_def

section \<open>Properties\<close>

text \<open>
  C1. For every sequence of \<^verbatim>\<open>add_note\<close> calls on the empty list,
  \<^verbatim>\<open>get_all_notes\<close> returns the added notes in the reverse order of their insertion,
  the note added last coming first.
\<close>

theorem add_notes_reverse_order: "get_all_notes (add_notes init_list ns) = rev ns"
  by (simp add: get_all_notes_chain add_notes_chain init_list_def)

text \<open>
  C3, as amended. The claim as written fails on a list in which two notes carry the id:
  \<^verbatim>\<open>delete_note\<close> unlinks the first of them only. When at most one note of the list
  carries the id and \<^verbatim>\<open>delete_note\<close> returns \<^verbatim>\<open>True\<close>, no note of that id is left in
  \<^verbatim>\<open>get_all_notes\<close> or \<^verbatim>\<open>get_deleted_notes\<close>, and \<^verbatim>\<open>restore_note\<close> and
  \<^verbatim>\<open>delete_note\<close> on that id return \<^verbatim>\<open>False\<close> and leave the list as it is (so that
  every later such call does the same).
\<close>

theorem delete_note_terminal:
  assumes "length (filter (has_id i) (get_all_notes l)) \<le> 1"
    and "delete_note l i = (True, l')"
  shows "\<not> list_ex (has_id i) (get_all_notes l') \<and>
         \<not> list_ex (has_id i) (get_deleted_notes l') \<and>
         restore_note l' i = (False, l') \<and> delete_note l' i = (False, l')"
proof -
  have l': "l' = snd (delete_note l i)" using assms(2) by simp
  have gone: "\<not> list_ex (has_id i) (chain (head l'))"
    using assms(1) by (simp add: l' delete_note_chain get_all_notes_chain remove_first_unique)
  then have "\<not> list_ex (trashed_with_id i) (chain (head l'))"
    by (auto simp: list_ex_iff has_id_def trashed_with_id_def)
  then have r: "\<not> fst (restore_note l' i)" by (simp add: restore_note_fst)
  have d: "\<not> fst (delete_note l' i)" using gone by (simp add: delete_note_fst)
  have "\<not> list_ex (has_id i) (get_deleted_notes l')"
    using gone by (auto simp: get_deleted_notes_chain list_ex_iff)
  moreover have "restore_note l' i = (False, l')"
    using r restore_note_absent [OF r] by (cases "restore_note l' i") simp
  moreover have "delete_note l' i = (False, l')"
    using d delete_note_absent [OF d] by (cases "delete_note l' i") simp
  ultimately show ?thesis using gone by (simp add: get_all_notes_chain)
qed

text \<open>The theorem on the list of \<open>note_A\<close> and \<open>note_B\<close>, with the id of \<open>note_A\<close>.\<close>

theorem delete_note_terminal_witness:
  "length (filter (has_id 1) (get_all_notes (add_notes init_list [note_B, note_A]))) \<le> 1 \<and>
   delete_note (add_notes init_list [note_B, note_A]) 1 = (True, add_notes init_list [note_B]) \<and>
   \<not> list_ex (has_id 1) (get_all_notes (add_notes init_list [note_B])) \<and>
   \<not> list_ex (has_id 1) (get_deleted_notes (add_notes init_list [note_B])) \<and>
   restore_note (add_notes init_list [note_B]) 1 = (False, add_notes init_list [note_B]) \<and>
   delete_note (add_notes init_list [note_B]) 1 = (False, add_notes init_list [note_B])"
proof -
  have h1: "length (filter (has_id 1) (get_all_notes (add_notes init_list [note_B, note_A]))) \<le> 1"
    by (simp add: ex_defs)
  have h2: "delete_note (add_notes init_list [note_B, note_A]) 1 = (True, add_notes init_list [note_B])"
    by (simp add: ex_defs delete_note_def)
  from delete_note_terminal [OF h1 h2] h1 h2 show ?thesis by simp
qed

text \<open>
  Two notes of id 1: the first \<^verbatim>\<open>delete_note\<close> returns \<^verbatim>\<open>True\<close>, a note of id 1 is still
  listed, and a second \<^verbatim>\<open>delete_note\<close> returns \<^verbatim>\<open>True\<close> again.
\<close>

theorem delete_note_duplicate_counterexample:
  "fst (delete_note (add_notes init_list [note_A, note_A2]) 1) \<and>
   list_ex (has_id 1) (get_all_notes (snd (delete_note (add_notes init_list [note_A, note_A2]) 1))) \<and>
   fst (delete_note (snd (delete_note (add_notes init_list [note_A, note_A2]) 1)) 1)"
  by (simp add: ex_defs delete_note_def)

text \<open>
  C2, as amended. The handler of \<^verbatim>\<open>DELETE /api/notes/<id>\<close> compares ids only, so a
  note that is in the trash already is found too. It returns the success response
  exactly when some note of the list, active or trashed, carries the id (in particular
  when an active one does); the first such note then has its flag set and the list is
  saved. It returns the not-found response exactly when no note carries the id, and then
  the backend, every note and the data file, is unchanged.
\<close>

theorem route_delete_note_any_note:
  "fst (route_delete_note b i) =
     (if list_ex (has_id i) (get_all_notes (notes_list b))
      then (Message ''Moved to trash'', 200) else (Error ''Not found'', 404)) \<and>
   (list_ex (active_with_id i) (get_all_notes (notes_list b)) \<longrightarrow>
      fst (route_delete_note b i) = (Message ''Moved to trash'', 200)) \<and>
   (list_ex (has_id i) (get_all_notes (notes_list b)) \<longrightarrow>
      get_all_notes (notes_list (snd (route_delete_note b i))) =
        trash_first i (get_all_notes (notes_list b)) \<and>
      data_file (snd (route_delete_note b i)) =
        Stored (trash_first i (get_all_notes (notes_list b)))) \<and>
   (\<not> list_ex (has_id i) (get_all_notes (notes_list b)) \<longrightarrow>
      snd (route_delete_note b i) = b)"
proof -
  obtain found l' where m: "mark_deleted (notes_list b) i = (found, l')"
    by (cases "mark_deleted (notes_list b) i")
  have f: "found = list_ex (has_id i) (get_all_notes (notes_list b))"
    using mark_deleted_fst [of "notes_list b" i] m by (simp add: get_all_notes_chain)
  have c: "get_all_notes l' = trash_first i (get_all_notes (notes_list b))"
    using mark_deleted_chain [of "notes_list b" i] m by (simp add: get_all_notes_chain)
  have a: "list_ex (active_with_id i) ns \<Longrightarrow> list_ex (has_id i) ns" for ns
    by (auto simp: list_ex_iff active_with_id_def has_id_def)
  show ?thesis
  proof (cases found)
    case True
    with m f c a show ?thesis
      by (simp add: route_delete_note_def save_data_def)
  next
    case False
    with m f a show ?thesis
      by (auto simp: route_delete_note_def)
  qed
qed

text \<open>
  The theorem on the backend loaded from a file of \<open>note_A\<close> (active, id 1) and
  \<open>note_B\<close>: the id 1 is found and flagged, the id 7 is not found.
\<close>

theorem route_delete_note_any_note_witness:
  "fst (route_delete_note (init_backend (Stored [note_A, note_B])) 1) = (Message ''Moved to trash'', 200) \<and>
   list_ex (active_with_id 1) (get_all_notes (notes_list (init_backend (Stored [note_A, note_B])))) \<and>
   get_all_notes (notes_list (snd (route_delete_note (init_backend (Stored [note_A, note_B])) 1))) =
     [note_A\<lparr>n_deleted := Some True\<rparr>, note_B] \<and>
   data_file (snd (route_delete_note (init_backend (Stored [note_A, note_B])) 1)) =
     Stored [note_A\<lparr>n_deleted := Some True\<rparr>, note_B] \<and>
   fst (route_delete_note (init_backend (Stored [note_A, note_B])) 7) = (Error ''Not found'', 404) \<and>
   snd (route_delete_note (init_backend (Stored [note_A, note_B])) 7) = init_backend (Stored [note_A, note_B])"
proof -
  have g: "get_all_notes (notes_list (init_backend (Stored [note_A, note_B]))) = [note_A, note_B]"
    by (simp add: init_backend_def load_data_def ex_defs)
  have h1: "list_ex (has_id 1) (get_all_notes (notes_list (init_backend (Stored [note_A, note_B]))))"
    by (simp add: g) (simp add: ex_defs)
  have h1a: "list_ex (active_with_id 1) (get_all_notes (notes_list (init_backend (Stored [note_A, note_B]))))"
    by (simp add: g) (simp add: ex_defs)
  have h7: "\<not> list_ex (has_id 7) (get_all_notes (notes_list (init_backend (Stored [note_A, note_B]))))"
    by (simp add: g) (simp add: ex_defs)
  have t: "trash_first 1 [note_A, note_B] = [note_A\<lparr>n_deleted := Some True\<rparr>, note_B]"
    by (simp add: ex_defs)
  show ?thesis
    using route_delete_note_any_note [of "init_backend (Stored [note_A, note_B])" 1]
      route_delete_note_any_note [of "init_backend (Stored [note_A, note_B])" 7] h1 h1a h7
    by (simp add: g t) (simp add: has_id_def active_with_id_def deleted_of_def note_A_def note_B_def)
qed

text \<open>
  The id 2 is carried by \<open>note_B\<close> only, which is in the trash already: no active
  note has the id, and the handler answers with the success response.
\<close>

theorem route_delete_note_trashed_counterexample:
  "\<not> list_ex (active_with_id 2) (get_all_notes (notes_list (init_backend (Stored [note_A, note_B])))) \<and>
   fst (route_delete_note (init_backend (Stored [note_A, note_B])) 2) = (Message ''Moved to trash'', 200)"
  by (simp add: init_backend_def load_data_def route_delete_note_def mark_deleted_def save_data_def ex_defs)



text \<open>
  C5. \<^verbatim>\<open>restore_note\<close> returns \<^verbatim>\<open>True\<close> exactly when the list holds a note of the id
  whose flag is set; the notes afterwards are the notes before with the flag of the
  first such note cleared. When there is no such note (the id is absent, or carried by
  notes that are not deleted) it returns \<^verbatim>\<open>False\<close> and the list is unchanged.
\<close>

theorem restore_note_only_trashed:
  "fst (restore_note l i) = list_ex (trashed_with_id i) (get_all_notes l) \<and>
   get_all_notes (snd (restore_note l i)) = restore_first i (get_all_notes l) \<and>
   size_f (snd (restore_note l i)) = size_f l \<and>
   (\<not> list_ex (trashed_with_id i) (get_all_notes l) \<longrightarrow> snd (restore_note l i) = l)"
  using restore_note_absent [of l i]
  by (simp add: restore_note_fst restore_note_chain restore_note_size get_all_notes_chain)

text \<open>
  The theorem on the list of \<open>note_A\<close> (id 1, active) and \<open>note_B\<close> (id 2, trashed):
  the id 2 is restored, the id 1 (not deleted) and the id 7 (absent) are not found.
\<close>

theorem restore_note_only_trashed_witness:
  "list_ex (trashed_with_id 2) (get_all_notes two_notes) \<and>
   fst (restore_note two_notes 2) \<and>
   get_all_notes (snd (restore_note two_notes 2)) =
     [note_A, note_B\<lparr>n_deleted := Some False\<rparr>] \<and>
   \<not> list_ex (trashed_with_id 1) (get_all_notes two_notes) \<and>
   \<not> list_ex (trashed_with_id 7) (get_all_notes two_notes) \<and>
   restore_note two_notes 1 = (False, two_notes) \<and>
   restore_note two_notes 7 = (False, two_notes)"
proof -
  have g: "get_all_notes two_notes = [note_A, note_B]"
    by (simp add: get_all_notes_chain add_note_def Let_def init_list_def two_notes_def three_notes_def)
  show ?thesis
    using restore_note_only_trashed [of two_notes 2]
      restore_note_only_trashed [of two_notes 1]
      restore_note_only_trashed [of two_notes 7]
    by (simp add: g prod_eq_iff trashed_with_id_def deleted_of_def note_A_def note_B_def)
qed

text \<open>
  C6. When exactly one note of the list carries the id, the soft delete followed by
  \<^verbatim>\<open>restore_note\<close> on that id both succeed, and the notes afterwards are the notes
  before, except that the flag of the note of that id is \<^verbatim>\<open>False\<close>: its other fields
  and all other notes are as they were.
\<close>

theorem mark_deleted_then_restore:
  assumes "filter (has_id i) (get_all_notes l) = [x]"
  shows "fst (mark_deleted l i) \<and>
         fst (restore_note (snd (mark_deleted l i)) i) \<and>
         get_all_notes (snd (restore_note (snd (mark_deleted l i)) i)) =
           map (clear_flag i) (get_all_notes l) \<and>
         size_f (snd (restore_note (snd (mark_deleted l i)) i)) = size_f l"
proof -
  have "x \<in> set (filter (has_id i) (get_all_notes l))" using assms by simp
  then have ex: "list_ex (has_id i) (chain (head l))"
    by (auto simp: list_ex_iff get_all_notes_chain)
  have u: "filter (has_id i) (chain (head l)) = [x]"
    using assms by (simp add: get_all_notes_chain)
  show ?thesis
    using ex trash_first_has_id [OF ex] restore_trash_unique [OF u]
    by (simp add: mark_deleted_fst mark_deleted_chain mark_deleted_size restore_note_fst
        restore_note_chain restore_note_size get_all_notes_chain)
qed

text \<open>The theorem on the list of \<open>note_A\<close> and \<open>note_B\<close>, with the id of \<open>note_A\<close>.\<close>

theorem mark_deleted_then_restore_witness:
  "filter (has_id 1) (get_all_notes two_notes) = [note_A] \<and>
   fst (mark_deleted two_notes 1) \<and>
   fst (restore_note (snd (mark_deleted two_notes 1)) 1) \<and>
   get_all_notes (snd (restore_note (snd (mark_deleted two_notes 1)) 1)) =
     [note_A, note_B] \<and>
   size_f (snd (restore_note (snd (mark_deleted two_notes 1)) 1)) = 2"
proof -
  have g: "get_all_notes two_notes = [note_A, note_B]"
    by (simp add: get_all_notes_chain add_note_def Let_def init_list_def two_notes_def three_notes_def)
  have h: "filter (has_id 1) (get_all_notes two_notes) = [note_A]"
    by (simp add: g) (simp add: has_id_def note_A_def note_B_def)
  have s: "size_f two_notes = 2"
    by (simp add: add_notes_size init_list_def two_notes_def del: add_notes.simps)
  show ?thesis
    using mark_deleted_then_restore [OF h] by (simp add: g s clear_flag_def has_id_def note_A_def note_B_def)
qed

text \<open>
  C7. \<^verbatim>\<open>save_data\<close> writes the notes in the order of \<^verbatim>\<open>get_all_notes\<close> and leaves the
  list alone; a backend started on the written file (\<^verbatim>\<open>load_data\<close> on the empty list,
  adding the records in reversed file order) holds the same notes in the same order, in
  fact the same chain of nodes, and its \<^verbatim>\<open>size\<close> is their number.
\<close>

theorem save_then_load:
  "get_all_notes (notes_list (init_backend (data_file (save_data b)))) =
     get_all_notes (notes_list b) \<and>
   head (notes_list (init_backend (data_file (save_data b)))) = head (notes_list b) \<and>
   size_f (notes_list (init_backend (data_file (save_data b)))) =
     int (length (get_all_notes (notes_list b))) \<and>
   data_file (save_data b) = Stored (get_all_notes (notes_list b)) \<and>
   notes_list (save_data b) = notes_list b"
proof -
  let ?ns = "chain (head (notes_list b))"
  have c: "chain (head (add_notes init_list (rev ?ns))) = ?ns"
    by (simp add: add_notes_chain init_list_def)
  then have h: "head (add_notes init_list (rev ?ns)) = head (notes_list b)"
    by (rule chain_inject)
  have s: "size_f (add_notes init_list (rev ?ns)) = int (length ?ns)"
    by (simp add: add_notes_size init_list_def)
  show ?thesis
    using c h s
    by (simp add: init_backend_def load_data_def save_data_def get_all_notes_chain)
qed

text \<open>
  C9. \<^verbatim>\<open>get_notes_with_photos\<close> returns, for the notes in list order, one entry for
  each element of the note's \<^verbatim>\<open>photos\<close> in their order: a note with \<open>k\<close> photos
  contributes \<open>k\<close> entries, a note with an empty \<^verbatim>\<open>photos\<close> (or none) contributes no
  entry, and each entry carries the photo and the note's mood, date, text, id and
  deleted flag.
\<close>

theorem get_notes_with_photos_per_photo:
  "get_notes_with_photos l =
     concat (map (\<lambda>d. map (\<lambda>p. \<lparr>p_src = p, p_mood = n_mood d, p_date = n_date d,
                                   p_text = n_text d, p_note_id = n_id d,
                                   p_deleted = (n_deleted d = Some True)\<rparr>)
                          (case n_photos d of None \<Rightarrow> [] | Some ps \<Rightarrow> ps))
                 (get_all_notes l)) \<and>
   length (get_notes_with_photos l) =
     sum_list (map (\<lambda>d. case n_photos d of None \<Rightarrow> 0 | Some ps \<Rightarrow> length ps)
                 (get_all_notes l))"
proof -
  have p: "photo_of d = (\<lambda>p. \<lparr>p_src = p, p_mood = n_mood d, p_date = n_date d,
      p_text = n_text d, p_note_id = n_id d, p_deleted = (n_deleted d = Some True)\<rparr>)" for d
    by (auto simp: photo_of_def deleted_of_def fun_eq_iff split: option.splits)
  have f: "get_notes_with_photos l =
      concat (map (\<lambda>d. map (photo_of d) (case n_photos d of None \<Rightarrow> [] | Some ps \<Rightarrow> ps))
        (get_all_notes l))"
    by (simp add: get_notes_with_photos_def get_notes_with_photos_loop_chain
        get_all_notes_chain photos_of_def)
  have n: "length (concat (map (\<lambda>d. map (photo_of d)
        (case n_photos d of None \<Rightarrow> [] | Some ps \<Rightarrow> ps)) ns)) =
      sum_list (map (\<lambda>d. case n_photos d of None \<Rightarrow> 0 | Some ps \<Rightarrow> length ps) ns)" for ns
    by (induction ns) (simp_all split: option.splits)
  from f have "length (get_notes_with_photos l) =
      sum_list (map (\<lambda>d. case n_photos d of None \<Rightarrow> 0 | Some ps \<Rightarrow> length ps)
        (get_all_notes l))"
    by (simp only: n)
  with f show ?thesis by (simp add: p)
qed

text \<open>
  The theorem on the list of \<open>note_A\<close> (three photos), \<open>note_B\<close> (an empty list of
  photos) and \<open>note_C\<close> (no \<^verbatim>\<open>photos\<close> key): three entries, all of \<open>note_A\<close>, in the
  order of its photos.
\<close>

theorem get_notes_with_photos_per_photo_witness:
  "n_photos note_A = Some [''a.png'', ''b.png'', ''c.png''] \<and> n_photos note_B = Some [] \<and>
   n_photos note_C = None \<and>
   get_notes_with_photos photo_notes =
     [\<lparr>p_src = ''a.png'', p_mood = ''happy'', p_date = ''2024-02-29T10:00:00'',
       p_text = ''Good day'', p_note_id = 1, p_deleted = False\<rparr>,
      \<lparr>p_src = ''b.png'', p_mood = ''happy'', p_date = ''2024-02-29T10:00:00'',
       p_text = ''Good day'', p_note_id = 1, p_deleted = False\<rparr>,
      \<lparr>p_src = ''c.png'', p_mood = ''happy'', p_date = ''2024-02-29T10:00:00'',
       p_text = ''Good day'', p_note_id = 1, p_deleted = False\<rparr>] \<and>
   length (get_notes_with_photos photo_notes) = 3"
proof -
  have g: "get_all_notes photo_notes = [note_A, note_B, note_C]"
    by (simp add: photo_notes_def get_all_notes_chain add_note_def Let_def init_list_def)
  show ?thesis
    using get_notes_with_photos_per_photo [of photo_notes]
    by (simp add: g note_A_def note_B_def note_C_def)
qed

text \<open>
  C10. After every run of \<^verbatim>\<open>add_note\<close> and \<^verbatim>\<open>delete_note\<close> calls on the empty list,
  \<^verbatim>\<open>size\<close> is the number of nodes reachable from \<^verbatim>\<open>head\<close>. On any list, \<^verbatim>\<open>add_note\<close>
  adds one to both; \<^verbatim>\<open>delete_note\<close> takes one from both when it returns \<^verbatim>\<open>True\<close> and
  leaves the list as it is when it returns \<^verbatim>\<open>False\<close>.
\<close>

theorem size_counts_nodes:
  "size_f (run_ops init_list ops) = int (count_nodes (head (run_ops init_list ops))) \<and>
   size_f (snd (add_note l n)) = size_f l + 1 \<and>
   count_nodes (head (snd (add_note l n))) = count_nodes (head l) + 1 \<and>
   (fst (delete_note l i) \<longrightarrow>
      size_f (snd (delete_note l i)) = size_f l - 1 \<and>
      count_nodes (head (snd (delete_note l i))) + 1 = count_nodes (head l)) \<and>
   (\<not> fst (delete_note l i) \<longrightarrow> snd (delete_note l i) = l)"
proof -
  have "size_f (run_ops init_list ops) = int (count_nodes (head (run_ops init_list ops)))"
    by (rule run_ops_inv) (simp add: init_list_def)
  moreover have "fst (delete_note l i) \<Longrightarrow>
      count_nodes (head (snd (delete_note l i))) + 1 = count_nodes (head l)"
    using remove_first_length [of i "chain (head l)"]
    by (simp add: delete_note_fst count_nodes_length delete_note_chain)
  ultimately show ?thesis
    by (simp add: delete_note_size delete_note_absent add_note_def Let_def)
qed

text \<open>
  The theorem on a run of four operations, and on the list of two notes with an id
  that is found (1) and one that is not (7).
\<close>

theorem size_counts_nodes_witness:
  "size_f (run_ops init_list [AddNote note_A, AddNote note_B, DeleteNote 7, DeleteNote 1]) = 1 \<and>
   count_nodes (head (run_ops init_list [AddNote note_A, AddNote note_B, DeleteNote 7, DeleteNote 1])) = 1 \<and>
   fst (delete_note two_notes 1) \<and>
   size_f two_notes = 2 \<and> count_nodes (head two_notes) = 2 \<and>
   size_f (snd (delete_note two_notes 1)) = 1 \<and>
   count_nodes (head (snd (delete_note two_notes 1))) = 1 \<and>
   \<not> fst (delete_note two_notes 7) \<and> snd (delete_note two_notes 7) = two_notes"
proof -
  have f1: "fst (delete_note two_notes 1)"
    by (simp add: delete_note_fst two_notes_def add_note_def Let_def init_list_def has_id_def
        note_A_def note_B_def)
  have f7: "\<not> fst (delete_note two_notes 7)"
    by (simp add: delete_note_fst two_notes_def add_note_def Let_def init_list_def has_id_def
        note_A_def note_B_def)
  have s: "size_f two_notes = 2" "count_nodes (head two_notes) = 2"
    by (simp_all add: two_notes_def add_note_def Let_def init_list_def)
  have r: "size_f (run_ops init_list [AddNote note_A, AddNote note_B, DeleteNote 7, DeleteNote 1]) = 1"
    by (simp add: add_note_def Let_def init_list_def delete_note_def note_A_def note_B_def)
  show ?thesis
    using size_counts_nodes [of "[AddNote note_A, AddNote note_B, DeleteNote 7, DeleteNote 1]"
        two_notes note_A 1]
      size_counts_nodes [of "[]" two_notes note_A 7] f1 f7 r
    by (simp add: s del: run_ops.simps)
qed

text \<open>
  C8, as amended. The claim as written fails where the handler answers with its error
  response: a month outside 1..12, or an active note whose date portion
  \<^verbatim>\<open>fromisoformat\<close> rejects. For a year in 1..9999 and a month in 1..12, December 9999
  apart, and a list whose notes are all deleted or of a readable date portion, the
  handler returns the mapping that files under each date string the notes, in list
  order, that are not deleted, have that date portion, and whose date lies between the
  first day of the month and its last (the 28th, 29th, 30th or 31st; in December the
  31st), and that holds no other key. For a year or month out of range, or a list with
  an unreadable active note, it returns the error. This holds for every reader
  \<^verbatim>\<open>fromisoformat\<close>.
\<close>

theorem get_calendar_data_month:
  "(1 \<le> year \<and> year \<le> 9999 \<and> 1 \<le> month \<and> month \<le> 12 \<and> \<not> (year = 9999 \<and> month = 12) \<and>
    list_all (date_readable fromisoformat) (get_all_notes (notes_list b)) \<longrightarrow>
      get_calendar_data fromisoformat b year month =
        Inr (calendar_of fromisoformat (Date year month 1)
               (Date year month (days_in_month year month)) (get_all_notes (notes_list b)))) \<and>
   (\<not> (1 \<le> year \<and> year \<le> 9999 \<and> 1 \<le> month \<and> month \<le> 12) \<or>
    \<not> list_all (date_readable fromisoformat) (get_all_notes (notes_list b)) \<longrightarrow>
      get_calendar_data fromisoformat b year month = Inl ValueError)"
proof (intro conjI impI)
  assume a: "1 \<le> year \<and> year \<le> 9999 \<and> 1 \<le> month \<and> month \<le> 12 \<and>
    \<not> (year = 9999 \<and> month = 12) \<and>
    list_all (date_readable fromisoformat) (get_all_notes (notes_list b))"
  then have r: "month_range year month =
      Inr (Date year month 1, Date year month (days_in_month year month))"
    by (intro month_range_valid) simp_all
  from a have "list_all (date_readable fromisoformat) (chain (head (notes_list b)))"
    by (simp add: get_all_notes_chain)
  then show "get_calendar_data fromisoformat b year month =
      Inr (calendar_of fromisoformat (Date year month 1)
             (Date year month (days_in_month year month)) (get_all_notes (notes_list b)))"
    by (simp add: get_calendar_data_def r calendar_loop_readable get_all_notes_chain
        calendar_of_def fun_eq_iff split: list.splits)
next
  assume a: "\<not> (1 \<le> year \<and> year \<le> 9999 \<and> 1 \<le> month \<and> month \<le> 12) \<or>
    \<not> list_all (date_readable fromisoformat) (get_all_notes (notes_list b))"
  show "get_calendar_data fromisoformat b year month = Inl ValueError"
  proof (cases "month_range year month")
    case (Inl e)
    then show ?thesis using month_range_error [OF Inl] by (simp add: get_calendar_data_def)
  next
    case (Inr p)
    with a month_range_invalid [of year month]
    have "\<not> list_all (date_readable fromisoformat) (chain (head (notes_list b)))"
      by (auto simp: get_all_notes_chain)
    with Inr show ?thesis
      by (cases p) (simp add: get_calendar_data_def calendar_loop_unreadable)
  qed
qed

text \<open>
  The theorem with the reader \<open>iso_date\<close>: February and December 2024 on the backend
  of \<open>note_A2\<close>, \<open>note_B\<close> (deleted) and \<open>note_A\<close>; the month 0; and a backend whose
  only note has the date \<^verbatim>\<open>yesterday\<close>.
\<close>

theorem get_calendar_data_month_witness:
  "list_all (date_readable iso_date) (get_all_notes (notes_list dated_backend)) \<and>
   get_calendar_data iso_date dated_backend 2024 2 =
     Inr (calendar_of iso_date (Date 2024 2 1) (Date 2024 2 29) [note_A2, note_B, note_A]) \<and>
   calendar_of iso_date (Date 2024 2 1) (Date 2024 2 29) [note_A2, note_B, note_A] ''2024-02-29'' =
     Some [note_A2, note_A] \<and>
   calendar_of iso_date (Date 2024 2 1) (Date 2024 2 29) [note_A2, note_B, note_A] ''2024-03-01'' =
     None \<and>
   get_calendar_data iso_date dated_backend 2024 12 =
     Inr (calendar_of iso_date (Date 2024 12 1) (Date 2024 12 31) [note_A2, note_B, note_A]) \<and>
   calendar_of iso_date (Date 2024 12 1) (Date 2024 12 31) [note_A2, note_B, note_A] ''2024-02-29'' =
     None \<and>
   get_calendar_data iso_date dated_backend 2024 0 = Inl ValueError \<and>
   \<not> list_all (date_readable iso_date) (get_all_notes (notes_list undated_backend)) \<and>
   get_calendar_data iso_date undated_backend 2024 3 = Inl ValueError"
proof -
  have h: "list_all (date_readable iso_date) (get_all_notes (notes_list dated_backend))"
    by (simp add: dated_notes) (simp add: date_readable_def date_defs)
  have u: "\<not> list_all (date_readable iso_date) (get_all_notes (notes_list undated_backend))"
    by (simp add: undated_notes) (simp add: date_readable_def date_defs)
  have d: "days_in_month 2024 2 = 29" "days_in_month 2024 12 = 31"
    by (simp_all add: days_in_month_def is_leap_def)
  have k: "calendar_of iso_date (Date 2024 2 1) (Date 2024 2 29) [note_A2, note_B, note_A]
       ''2024-02-29'' = Some [note_A2, note_A]"
    "calendar_of iso_date (Date 2024 2 1) (Date 2024 2 29) [note_A2, note_B, note_A]
       ''2024-03-01'' = None"
    "calendar_of iso_date (Date 2024 12 1) (Date 2024 12 31) [note_A2, note_B, note_A]
       ''2024-02-29'' = None"
    by (simp_all add: calendar_of_def filed_under_def date_defs)
  show ?thesis
    using get_calendar_data_month [of 2024 2 iso_date dated_backend]
      get_calendar_data_month [of 2024 12 iso_date dated_backend]
      get_calendar_data_month [of 2024 0 iso_date dated_backend]
      get_calendar_data_month [of 2024 3 iso_date undated_backend] h u
    by (simp add: d k dated_notes)
qed

text \<open>
  February 2024 on a list with an active note of date \<^verbatim>\<open>yesterday\<close>, and the month
  13: the handler returns the error, not a mapping.
\<close>

theorem get_calendar_data_error_counterexample:
  "get_calendar_data iso_date undated_backend 2024 2 = Inl ValueError \<and>
   get_calendar_data iso_date dated_backend 2024 13 = Inl ValueError"
  by (simp add: get_calendar_data_def month_range_def minus_one_day_def undated_backend_def
      init_backend_def load_data_def add_note_def Let_def init_list_def date_defs)

end
